theory Spec2Isabelle
  imports Complex_Main "HOL-Library.Word"
begin

section \<open>JavaScript strings\<close>

text \<open>
  A JavaScript string is a sequence of 16-bit code units. Literals of the source are
  ASCII and are written through \<open>js_str\<close>.
\<close>

type_synonym js_string = "16 word list"

definition js_str :: "string \<Rightarrow> js_string" where
  "js_str s = map of_char s"

text \<open>
  \<open>String.prototype.trim\<close> removes WhiteSpace and LineTerminator code points from both
  ends: TAB, VT, FF, SP, NBSP, ZWNBSP, the category Zs (U+1680, U+2000 to U+200A, U+202F,
  U+205F, U+3000) and LF, CR, LS, PS. All of them are single code units.
\<close>

definition is_js_whitespace :: "16 word \<Rightarrow> bool" where
  "is_js_whitespace c =
     (c \<in> set [0x9, 0xA, 0xB, 0xC, 0xD, 0x20, 0xA0, 0x1680, 0x2028, 0x2029, 0x202F,
               0x205F, 0x3000, 0xFEFF]
      \<or> (0x2000 \<le> c \<and> c \<le> 0x200A))"

definition js_trim :: "js_string \<Rightarrow> js_string" where
  "js_trim s = rev (dropWhile is_js_whitespace (rev (dropWhile is_js_whitespace s)))"

section \<open>The data of the user interface\<close>

text \<open>
  The document metadata returned by the upload endpoint (\<open>response.data\<close>): an object,
  hence truthy; \<open>null\<close> is \<open>None\<close> wherever a document may be absent. The handlers read
  only \<open>id\<close>; \<open>filename\<close>, \<open>type\<close>, \<open>pages\<close> and \<open>chunks\<close> are read by the rendering.
\<close>

record document =
  doc_id :: js_string
  filename :: js_string
  doc_type :: js_string
  pages :: "nat option"
  chunks :: "nat option"

datatype sender = User | Assistant

text \<open>
  A chat message. \<open>sources\<close> is whatever the query endpoint returned (\<open>'s\<close>, never
  inspected by a handler) and is absent on user and error messages; the \<open>error\<close> field is
  set on error messages only, so an absent field reads as \<open>False\<close>. \<open>msg_id\<close> comes from
  \<open>Date.now()\<close> and \<open>timestamp\<close> from \<open>new Date()\<close>, both in milliseconds.
\<close>

record 's message =
  msg_id :: int
  msg_type :: sender
  content :: js_string
  sources :: "'s option"
  error :: bool
  timestamp :: int

datatype status_type = Success | Error

record upload_status =
  status_type :: status_type
  status_message :: js_string

text \<open>
  The state of the three components, in one record: \<open>documents\<close>, \<open>selectedDocument\<close>
  and \<open>messages\<close> are the \<open>useState\<close> cells of \<open>App\<close>; \<open>question\<close> and \<open>isLoading\<close>
  those of \<open>ChatInterface\<close>; \<open>uploading\<close> and \<open>uploadStatus\<close> those of
  \<open>DocumentUpload\<close>. A handler is a closure of the render that created it: what it
  reads of the state is that render's value, passed to the model explicitly wherever
  the handler runs after an \<open>await\<close>; the functional updates (\<open>prev => ...\<close>) and the
  setters act on the current state.
\<close>

record 's ui =
  documents :: "document list"
  selectedDocument :: "document option"
  messages :: "'s message list"
  question :: js_string
  isLoading :: bool
  uploading :: bool
  uploadStatus :: "upload_status option"

definition initial_ui :: "'s ui" where
  "initial_ui =
     \<lparr>documents = [], selectedDocument = None, messages = [], question = [],
      isLoading = False, uploading = False, uploadStatus = None\<rparr>"

section \<open>App.jsx\<close>

text \<open>
  \<^verbatim>\<open>setDocuments(prev => [...prev, document])
  if (!selectedDocument) { setSelectedDocument(document) }\<close>
  \<open>seen\<close> is \<open>selectedDocument\<close> as the handler's closure holds it. \<open>DocumentUpload\<close>
  calls the handler after the upload's \<open>await\<close>, so it is the value of the render in
  which the file was dropped.
\<close>

definition handleDocumentUploaded :: "document option \<Rightarrow> document \<Rightarrow> 's ui \<Rightarrow> 's ui" where
  "handleDocumentUploaded seen d u =
     (let u' = u\<lparr>documents := documents u @ [d]\<rparr>
      in if seen = None then u'\<lparr>selectedDocument := Some d\<rparr> else u')"

text \<open>
  \<^verbatim>\<open>setSelectedDocument(document)
  setMessages([])\<close>
\<close>

definition handleDocumentSelect :: "document \<Rightarrow> 's ui \<Rightarrow> 's ui" where
  "handleDocumentSelect d u = u\<lparr>selectedDocument := Some d, messages := []\<rparr>"

text \<open>\<^verbatim>\<open>setMessages(prev => [...prev, message])\<close>\<close>

definition handleNewMessage :: "'s message \<Rightarrow> 's ui \<Rightarrow> 's ui" where
  "handleNewMessage m u = u\<lparr>messages := messages u @ [m]\<rparr>"

section \<open>ChatInterface: handleSubmit\<close>

text \<open>The body of \<open>POST /api/query\<close>.\<close>

record query_request =
  document_id :: js_string
  request_question :: js_string

text \<open>
  How the awaited \<open>axios.post\<close> ends: the promise is rejected, or reading
  \<open>response.data.answer\<close> throws (\<open>QueryFailed\<close>: both reach the \<open>catch\<close> block), or
  the response carries an answer and its sources.
\<close>

datatype 's query_outcome = QueryFailed | Answered js_string "'s option"

definition userMessage :: "int \<Rightarrow> int \<Rightarrow> js_string \<Rightarrow> 's message" where
  "userMessage now stamp q =
     \<lparr>msg_id = now, msg_type = User, content = q, sources = None, error = False,
      timestamp = stamp\<rparr>"

definition assistantMessage :: "int \<Rightarrow> int \<Rightarrow> js_string \<Rightarrow> 's option \<Rightarrow> 's message" where
  "assistantMessage now stamp a srcs =
     \<lparr>msg_id = now + 1, msg_type = Assistant, content = a, sources = srcs, error = False,
      timestamp = stamp\<rparr>"

definition errorMessage :: "int \<Rightarrow> int \<Rightarrow> 's message" where
  "errorMessage now stamp =
     \<lparr>msg_id = now + 1, msg_type = Assistant,
      content = js_str
        ''Sorry, I encountered an error while processing your question. Please try again.'',
      sources = None, error = True, timestamp = stamp\<rparr>"

text \<open>
  The handler up to its \<open>await\<close>: the guard, the user's message, the cleared input, the
  loading flag, and the request it issues (\<open>None\<close> when it returns at the guard).
  \<open>doc\<close> is the \<open>document\<close> prop; \<open>now\<close> and \<open>stamp\<close> are the two clock reads.
\<close>

definition handleSubmit_send ::
  "document \<Rightarrow> int \<Rightarrow> int \<Rightarrow> 's ui \<Rightarrow> 's ui \<times> query_request option" where
  "handleSubmit_send doc now stamp u =
     (if js_trim (question u) = [] \<or> isLoading u then (u, None)
      else
        ((handleNewMessage (userMessage now stamp (question u)) u)
           \<lparr>question := [], isLoading := True\<rparr>,
         Some \<lparr>document_id = doc_id doc, request_question = question u\<rparr>))"

text \<open>
  The handler after its \<open>await\<close>, on the state current at that moment: the \<open>try\<close> block's
  tail or the \<open>catch\<close> block, then \<open>finally\<close>. It returns the requests it issues as well:
  neither block calls \<open>axios\<close>.
\<close>

definition handleSubmit_settle ::
  "'s query_outcome \<Rightarrow> int \<Rightarrow> int \<Rightarrow> 's ui \<Rightarrow> 's ui \<times> query_request list" where
  "handleSubmit_settle outcome now stamp u =
     (case outcome of
        Answered a srcs \<Rightarrow>
          ((handleNewMessage (assistantMessage now stamp a srcs) u)\<lparr>isLoading := False\<rparr>, [])
      | QueryFailed \<Rightarrow>
          ((handleNewMessage (errorMessage now stamp) u)\<lparr>isLoading := False\<rparr>, []))"

text \<open>
  One whole run of \<open>handleSubmit\<close> with nothing else happening during the \<open>await\<close>: the
  final state and every request issued, in order. \<open>now2\<close>, \<open>stamp2\<close> are the clock reads
  made after the \<open>await\<close>.
\<close>

definition handleSubmit ::
  "document \<Rightarrow> 's query_outcome \<Rightarrow> int \<Rightarrow> int \<Rightarrow> int \<Rightarrow> int \<Rightarrow> 's ui
     \<Rightarrow> 's ui \<times> query_request list" where
  "handleSubmit doc outcome now stamp now2 stamp2 u =
     (case handleSubmit_send doc now stamp u of
        (u1, None) \<Rightarrow> (u1, [])
      | (u1, Some r) \<Rightarrow>
          (case handleSubmit_settle outcome now2 stamp2 u1 of
             (u2, rs) \<Rightarrow> (u2, r # rs)))"

section \<open>DocumentUpload.jsx\<close>

text \<open>A \<open>File\<close>: its name and its \<open>type\<close> (the content type the browser reports).\<close>

record js_file =
  file_name :: js_string
  file_type :: js_string

text \<open>The \<open>accept\<close> option given to \<open>useDropzone\<close>: content types with their extensions.\<close>

definition accept :: "(js_string \<times> js_string list) list" where
  "accept =
     [(js_str ''application/pdf'', [js_str ''.pdf'']),
      (js_str ''text/markdown'', [js_str ''.md'']),
      (js_str ''text/html'', [js_str ''.html'']),
      (js_str ''text/plain'', [js_str ''.txt''])]"

text \<open>The \<open>FormData\<close> posted to \<open>/api/upload\<close>: one field, \<open>file\<close>.\<close>

record upload_request =
  form_file :: js_file

text \<open>
  How the awaited upload ends: rejected, with \<open>error.response?.data?.error\<close> when the
  server sent one, or resolved with the document metadata.
\<close>

datatype upload_outcome = UploadFailed "js_string option" | Uploaded document

text \<open>
  \<open>onDrop\<close> up to its \<open>await\<close>. \<open>acceptedFiles[0]\<close> is \<open>undefined\<close> on an empty array; a
  \<open>File\<close> is truthy. The handler looks at neither the file's name nor its type.
\<close>

definition onDrop_send :: "js_file list \<Rightarrow> 's ui \<Rightarrow> 's ui \<times> upload_request option" where
  "onDrop_send acceptedFiles u =
     (case acceptedFiles of
        [] \<Rightarrow> (u, None)
      | f # _ \<Rightarrow> (u\<lparr>uploading := True, uploadStatus := None\<rparr>, Some \<lparr>form_file = f\<rparr>))"

text \<open>
  \<open>onDrop\<close> after its \<open>await\<close>, with \<open>seen\<close> for the \<open>onDocumentUploaded\<close> it closes
  over. In the \<open>catch\<close> block \<open>||\<close> falls back to the fixed text when the server's
  message is missing or the empty string.
\<close>

definition onDrop_settle :: "document option \<Rightarrow> upload_outcome \<Rightarrow> 's ui \<Rightarrow> 's ui" where
  "onDrop_settle seen outcome u =
     (case outcome of
        Uploaded d \<Rightarrow>
          (handleDocumentUploaded seen d
             (u\<lparr>uploadStatus :=
                  Some \<lparr>status_type = Success,
                        status_message = js_str ''Document uploaded successfully!''\<rparr>\<rparr>))
          \<lparr>uploading := False\<rparr>
      | UploadFailed e \<Rightarrow>
          u\<lparr>uploadStatus :=
               Some \<lparr>status_type = Error,
                     status_message =
                       (case e of
                          None \<Rightarrow> js_str ''Failed to upload document''
                        | Some m \<Rightarrow> if m = [] then js_str ''Failed to upload document'' else m)\<rparr>,
            uploading := False\<rparr>)"

text \<open>
  The dropzone is \<open>react-dropzone\<close>, a dependency of the component and no part of the
  repository. The component gives it \<open>onDrop\<close> and three options: \<open>accept\<close>,
  \<open>maxFiles: 1\<close> and \<open>disabled: uploading\<close>.
\<close>

record dropzone_options =
  opt_accept :: "(js_string \<times> js_string list) list"
  opt_maxFiles :: nat
  opt_disabled :: bool

definition useDropzone_options :: "'s ui \<Rightarrow> dropzone_options" where
  "useDropzone_options u =
     \<lparr>opt_accept = accept, opt_maxFiles = 1, opt_disabled = uploading u\<rparr>"

text \<open>
  What the library does with these options is taken from its documented behaviour, not
  from code of the repository. It compares a file with every content type and every
  extension of the accept table, both sides in lower case: an entry that starts with a
  dot must end the file's name, any other entry must equal the file's type. The entries
  of \<open>accept\<close> are ASCII, so lower case matters for A to Z only; a \<open>File\<close>'s type is in
  ASCII lower case already. The library's exception for the drag type
  application/x-moz-file of Firefox before version 53 is left out.
\<close>

definition ascii_lower :: "16 word \<Rightarrow> 16 word" where
  "ascii_lower c = (if 0x41 \<le> c \<and> c \<le> 0x5A then c + 0x20 else c)"

definition js_ends_with :: "js_string \<Rightarrow> js_string \<Rightarrow> bool" where
  "js_ends_with s suffix =
     (length suffix \<le> length s \<and> drop (length s - length suffix) s = suffix)"

definition accepts :: "(js_string \<times> js_string list) list \<Rightarrow> js_file \<Rightarrow> bool" where
  "accepts table f =
     (map ascii_lower (file_type f) \<in> set (map fst table) \<or>
      list_ex (js_ends_with (map ascii_lower (file_name f))) (concat (map snd table)))"

text \<open>
  The files handed to \<open>onDrop\<close> as \<open>acceptedFiles\<close>: those the accept table accepts,
  and none of them when they are more than \<open>maxFiles\<close> (0 means no limit).
\<close>

definition dropzone_accepted :: "dropzone_options \<Rightarrow> js_file list \<Rightarrow> js_file list" where
  "dropzone_accepted opts dropped =
     (let ok = filter (accepts (opt_accept opts)) dropped
      in if 1 \<le> opt_maxFiles opts \<and> opt_maxFiles opts < length ok then [] else ok)"

text \<open>
  A drop on the upload zone: a disabled dropzone calls nothing; otherwise \<open>onDrop\<close>
  runs on the accepted files.
\<close>

definition drop_files :: "js_file list \<Rightarrow> 's ui \<Rightarrow> 's ui \<times> upload_request option" where
  "drop_files dropped u =
     (if opt_disabled (useDropzone_options u) then (u, None)
      else onDrop_send (dropzone_accepted (useDropzone_options u) dropped) u)"

section \<open>A session: the handlers driven by events\<close>

text \<open>
  The events that reach the handlers: typing into the input (\<open>setQuestion\<close>), submitting
  the form, a query's promise settling, a click in the document list, the dropzone
  calling \<open>onDrop\<close>, an upload's promise settling. Each event runs on the state the
  previous one left (React renders between two events). Besides the interface's state a
  session records the requests that were issued and have not settled yet, an upload
  together with the \<open>selectedDocument\<close> its continuation closes over.
\<close>

datatype 's event =
    Typed js_string
  | Submit int int
  | QuerySettled "'s query_outcome" int int
  | Selected document
  | Dropped "js_file list"
  | UploadSettled upload_outcome

record 's session =
  ui_state :: "'s ui"
  queries_in_flight :: "query_request list"
  uploads_in_flight :: "(upload_request \<times> document option) list"

definition initial_session :: "'s session" where
  "initial_session =
     \<lparr>ui_state = initial_ui, queries_in_flight = [], uploads_in_flight = []\<rparr>"

text \<open>
  \<open>ChatInterface\<close>, with its input and its form, is rendered only while a document is
  selected, with that document as its prop; the document list offers the documents of \<open>documents\<close>; the dropzone,
  given \<open>disabled: uploading\<close>, calls \<open>onDrop\<close> for no drop while \<open>uploading\<close> is set; a
  promise settles only if its request was issued.
\<close>

fun step :: "'s event \<Rightarrow> 's session \<Rightarrow> 's session" where
  "step (Typed q) s =
     (if selectedDocument (ui_state s) = None then s
      else s\<lparr>ui_state := (ui_state s)\<lparr>question := q\<rparr>\<rparr>)"
| "step (Submit now stamp) s =
     (case selectedDocument (ui_state s) of
        None \<Rightarrow> s
      | Some doc \<Rightarrow>
          (case handleSubmit_send doc now stamp (ui_state s) of
             (u, None) \<Rightarrow> s\<lparr>ui_state := u\<rparr>
           | (u, Some r) \<Rightarrow>
               s\<lparr>ui_state := u, queries_in_flight := queries_in_flight s @ [r]\<rparr>))"
| "step (QuerySettled outcome now stamp) s =
     (case queries_in_flight s of
        [] \<Rightarrow> s
      | _ # rest \<Rightarrow>
          (case handleSubmit_settle outcome now stamp (ui_state s) of
             (u, rs) \<Rightarrow> s\<lparr>ui_state := u, queries_in_flight := rest @ rs\<rparr>))"
| "step (Selected d) s =
     (if d \<in> set (documents (ui_state s))
      then s\<lparr>ui_state := handleDocumentSelect d (ui_state s)\<rparr> else s)"
| "step (Dropped acceptedFiles) s =
     (if uploading (ui_state s) then s
      else
        (case onDrop_send acceptedFiles (ui_state s) of
           (u, None) \<Rightarrow> s\<lparr>ui_state := u\<rparr>
         | (u, Some r) \<Rightarrow>
             s\<lparr>ui_state := u,
               uploads_in_flight :=
                 uploads_in_flight s @ [(r, selectedDocument (ui_state s))]\<rparr>))"
| "step (UploadSettled outcome) s =
     (case uploads_in_flight s of
        [] \<Rightarrow> s
      | (_, seen) # rest \<Rightarrow>
          s\<lparr>ui_state := onDrop_settle seen outcome (ui_state s), uploads_in_flight := rest\<rparr>)"

definition run :: "'s event list \<Rightarrow> 's session" where
  "run evs = foldl (\<lambda>s e. step e s) initial_session evs"

text \<open>
  The invariant of a session: the loading flag tells whether a query is in flight, and
  at most one is.
\<close>

definition loading_inv :: "'s session \<Rightarrow> bool" where
  "loading_inv s =
     (isLoading (ui_state s) = (queries_in_flight s \<noteq> []) \<and> length (queries_in_flight s) \<le> 1)"

text \<open>
  A second invariant: a document is selected once one has been uploaded; at
  most one upload is in flight, exactly while \<open>uploading\<close> is set; and what its
  continuation holds as \<open>selectedDocument\<close> is empty exactly when the current selection
  is.
\<close>

definition selection_inv :: "'s session \<Rightarrow> bool" where
  "selection_inv s =
     ((selectedDocument (ui_state s) = None \<longrightarrow> documents (ui_state s) = []) \<and>
      uploading (ui_state s) = (uploads_in_flight s \<noteq> []) \<and>
      length (uploads_in_flight s) \<le> 1 \<and>
      list_all (\<lambda>(r, seen). (seen = None) = (selectedDocument (ui_state s) = None))
        (uploads_in_flight s))"

section \<open>The retrieval core\<close>

text \<open>
  The repository's source holds the user interface only. The chunker, the vector index
  and the answer synthesizer behind \<open>/api/upload\<close> and \<open>/api/query\<close> are described by
  the specification (sections 3 and 4) and are modelled from it here.
\<close>

subsection \<open>Chunker\<close>

text \<open>
  Modelled from the spec: the Chunk of section 3, whose code is not in the source. The
  identifier is the sequence index (the document identifier is the caller's); a chunk
  records its text and its absolute offset range \<open>char_start\<close> to \<open>char_end\<close>
  (exclusive) in the source text. The text is a sequence of tokens or characters \<open>'a\<close>.
\<close>

record 'a chunk =
  seq_index :: nat
  chunk_text :: "'a list"
  char_start :: nat
  char_end :: nat

text \<open>
  Modelled from the spec: one window of the chunker of section 4.1, which is not in the
  source. The window of length \<open>csize\<close> at \<open>start\<close>, cut at the end of the text ("the
  final window may be shorter than size if the remaining text is insufficient").
\<close>

definition window :: "'a list \<Rightarrow> nat \<Rightarrow> nat \<Rightarrow> nat \<Rightarrow> 'a chunk" where
  "window source csize i start =
     (let stop = min (start + csize) (length source)
      in \<lparr>seq_index = i, chunk_text = take (stop - start) (drop start source),
          char_start = start, char_end = stop\<rparr>)"

text \<open>
  Modelled from the spec: the chunker's loop (section 4.1), which is not in the source.
  A window is emitted while text remains, "advancing the window start by size - overlap
  each step"; the window that reaches the end of the text is the final one, so that
  only the final window can be shorter than \<open>csize\<close>. Empty text gives no chunk. The
  test \<open>stride = 0\<close> is never true under the contract and makes the recursion total.
\<close>

function chunk_from :: "'a list \<Rightarrow> nat \<Rightarrow> nat \<Rightarrow> nat \<Rightarrow> nat \<Rightarrow> 'a chunk list" where
  "chunk_from source csize stride i start =
     (if stride = 0 \<or> length source \<le> start then []
      else window source csize i start #
           (if length source \<le> start + csize then []
            else chunk_from source csize stride (Suc i) (start + stride)))"
  by pat_completeness auto
termination
  by (relation "measure (\<lambda>(source, csize, stride, i, start). length source - start)") auto

text \<open>
  Modelled from the spec: \<open>chunk(text, size, overlap)\<close> of section 4.1, which is not in
  the source. The contract constrains \<open>0 < overlap < size\<close> and says nothing of other
  parameters: there the model has no result (\<open>None\<close>).
\<close>

definition chunk :: "'a list \<Rightarrow> nat \<Rightarrow> nat \<Rightarrow> 'a chunk list option" where
  "chunk source csize overlap =
     (if 0 < overlap \<and> overlap < csize
      then Some (chunk_from source csize (csize - overlap) 0 0) else None)"

subsection \<open>Vector index and retriever\<close>

text \<open>
  Modelled from the spec: an element of the Retrieval Result of section 3, whose code is
  not in the source. Scores are floating-point numbers in the program; here they are
  values of any linear order \<open>'sc\<close>, so a score that compares with nothing (NaN) is not
  covered.
\<close>

record ('id, 'sc) retrieval =
  chunk_id :: 'id
  similarity_score :: 'sc
  retrieved_text :: string

text \<open>
  Modelled from the spec: the ordering of results (section 4.3), not in the source:
  descending similarity, and "tie-break for equal scores: stable by ascending chunk
  sequence index". An entry is put before the first entry whose score is not greater.
\<close>

fun insert_by_score ::
  "('id, 'sc::linorder) retrieval \<Rightarrow> ('id, 'sc) retrieval list \<Rightarrow> ('id, 'sc) retrieval list" where
  "insert_by_score r [] = [r]"
| "insert_by_score r (x # xs) =
     (if similarity_score r < similarity_score x then x # insert_by_score r xs
      else r # x # xs)"

definition rank :: "('id, 'sc::linorder) retrieval list \<Rightarrow> ('id, 'sc) retrieval list" where
  "rank rs = foldr insert_by_score rs []"

text \<open>
  Modelled from the spec: \<open>search(query_vector, k)\<close> of section 4.3, which is not in the
  source. The index is the append-only collection of (chunk id, vector) pairs in
  insertion order; \<open>similarity\<close> is the metric (cosine similarity in the spec) and
  \<open>text_of\<close> the document store's chunk text, both parameters. Every chunk is scored
  (exact search), the results are ranked, and "k is clamped to the number of chunks
  available".
\<close>

definition search ::
  "('v \<Rightarrow> 'v \<Rightarrow> 'sc::linorder) \<Rightarrow> ('id \<Rightarrow> string) \<Rightarrow> ('id \<times> 'v) list \<Rightarrow> 'v \<Rightarrow> nat
     \<Rightarrow> ('id, 'sc) retrieval list" where
  "search similarity text_of index q k =
     take (min k (length index))
       (rank (map (\<lambda>(cid, v). \<lparr>chunk_id = cid, similarity_score = similarity q v,
                               retrieved_text = text_of cid\<rparr>) index))"

text \<open>The order of a retrieval result: the later entry's score is not greater.\<close>

definition by_score_desc :: "('id, 'sc::linorder) retrieval \<Rightarrow> ('id, 'sc) retrieval \<Rightarrow> bool" where
  "by_score_desc a b = (similarity_score b \<le> similarity_score a)"

subsection \<open>Answer synthesizer\<close>

text \<open>Modelled from the spec: the error kinds of section 7, not in the source.\<close>

datatype error_kind =
    UnsupportedFileType
  | ExtractionFailure
  | EmptyDocument
  | EmbeddingFailure
  | UnknownDocument
  | SynthesisFailure

text \<open>
  Modelled from the spec: the Answer of section 3 and its source citations, whose code
  is not in the source. The confidence, a float in [0, 1] in the program, is a real
  number here.
\<close>

record ('id, 'sc) citation =
  cited_chunk_id :: 'id
  page_or_chunk_label :: string
  excerpt_text :: string
  cited_score :: 'sc

record ('id, 'sc) answer =
  answer_text :: string
  confidence :: real
  answer_sources :: "('id, 'sc) citation list"

text \<open>
  Modelled from the spec: \<open>synthesize(question, results)\<close> of section 4.4, which is not
  in the source. "If results is empty, returns a canned low-confidence 'no relevant
  content found' Answer with empty sources and confidence 0". For results that are not
  empty the spec fixes neither the answer text nor the confidence formula (section 9
  leaves it open): that part is the parameter \<open>assemble\<close>, which may fail with an error
  kind.
\<close>

definition synthesize ::
  "(string \<Rightarrow> ('id, 'sc) retrieval list \<Rightarrow> error_kind + ('id, 'sc) answer) \<Rightarrow> string
     \<Rightarrow> ('id, 'sc) retrieval list \<Rightarrow> error_kind + ('id, 'sc) answer" where
  "synthesize assemble asked results =
     (if results = []
      then Inr \<lparr>answer_text = ''no relevant content found'', confidence = 0,
                answer_sources = []\<rparr>
      else assemble asked results)"

section \<open>Example data\<close>

definition doc1 :: document where
  "doc1 =
     \<lparr>doc_id = js_str ''d1'', filename = js_str ''notes.txt'', doc_type = js_str ''text'',
      pages = None, chunks = Some 3\<rparr>"

definition file1 :: js_file where
  "file1 = \<lparr>file_name = js_str ''notes.txt'', file_type = js_str ''text/plain''\<rparr>"

text \<open>A file with a listed extension whose content type is not a key of \<open>accept\<close>.\<close>

definition file2 :: js_file where
  "file2 =
     \<lparr>file_name = js_str ''notes.md'', file_type = js_str ''application/octet-stream''\<rparr>"

text \<open>An idle chat on \<open>doc1\<close> with one earlier message and a question typed in.\<close>

definition ui1 :: "unit ui" where
  "ui1 =
     \<lparr>documents = [doc1], selectedDocument = Some doc1,
      messages = [userMessage 1 1 (js_str ''a'')], question = js_str ''why?'',
      isLoading = False, uploading = False, uploadStatus = None\<rparr>"

text \<open>A session: one upload that succeeds, then a question typed in.\<close>

definition session1 :: "unit event list" where
  "session1 = [Dropped [file1], UploadSettled (Uploaded doc1), Typed (js_str ''hi'')]"

definition doc2 :: document where
  "doc2 =
     \<lparr>doc_id = js_str ''d2'', filename = js_str ''notes.md'', doc_type = js_str ''markdown'',
      pages = None, chunks = Some 5\<rparr>"

text \<open>A session: one upload that succeeded, and a second one in flight.\<close>

definition session2 :: "unit event list" where
  "session2 = [Dropped [file1], UploadSettled (Uploaded doc1), Dropped [file2]]"

text \<open>A file whose content type and extension are both outside \<open>accept\<close>.\<close>

definition file3 :: js_file where
  "file3 =
     \<lparr>file_name = js_str ''setup.exe'', file_type = js_str ''application/x-msdownload''\<rparr>"

text \<open>A session with a query in flight: \<open>session1\<close>, then the question submitted.\<close>

definition session3 :: "unit event list" where
  "session3 = session1 @ [Submit 5 6]"

section \<open>Properties of the user interface\<close>

lemma handleDocumentUploaded_result:
  "handleDocumentUploaded seen d u =
     u\<lparr>documents := documents u @ [d],
       selectedDocument := (case seen of None \<Rightarrow> Some d | Some _ \<Rightarrow> selectedDocument u)\<rparr>"
  by (cases seen) (simp_all add: handleDocumentUploaded_def Let_def)

lemma handleSubmit_send_guard:
  "handleSubmit_send doc now stamp u = (u', Some r) \<Longrightarrow>
     js_trim (question u) \<noteq> [] \<and> \<not> isLoading u \<and> isLoading u'"
  by (auto simp: handleSubmit_send_def handleNewMessage_def split: if_splits)

lemma handleSubmit_send_idle:
  "handleSubmit_send doc now stamp u = (u', None) \<Longrightarrow> u' = u"
  by (auto simp: handleSubmit_send_def split: if_splits)

lemma handleSubmit_settle_result:
  "handleSubmit_settle outcome now stamp u = (u', rs) \<Longrightarrow> \<not> isLoading u' \<and> rs = []"
  by (auto simp: handleSubmit_settle_def handleNewMessage_def split: query_outcome.splits)

lemma loading_inv_step: "loading_inv s \<Longrightarrow> loading_inv (step e s)"
proof (cases e)
  case (Typed q)
  assume "loading_inv s"
  with Typed show ?thesis by (simp add: loading_inv_def)
next
  case (Submit now stamp)
  assume inv: "loading_inv s"
  show ?thesis
  proof (cases "selectedDocument (ui_state s)")
    case None
    with Submit inv show ?thesis by simp
  next
    case (Some doc)
    obtain u r where send: "handleSubmit_send doc now stamp (ui_state s) = (u, r)"
      by (cases "handleSubmit_send doc now stamp (ui_state s)")
    show ?thesis
    proof (cases r)
      case None
      with send have "u = ui_state s" by (simp add: handleSubmit_send_idle)
      with Submit Some send None inv show ?thesis by (simp add: loading_inv_def)
    next
      case (Some q)
      with send have "\<not> isLoading (ui_state s)" and "isLoading u"
        using handleSubmit_send_guard by blast+
      with Submit \<open>selectedDocument (ui_state s) = Some doc\<close> send Some inv show ?thesis
        by (simp add: loading_inv_def)
    qed
  qed
next
  case (QuerySettled outcome now stamp)
  assume inv: "loading_inv s"
  show ?thesis
  proof (cases "queries_in_flight s")
    case Nil
    with QuerySettled inv show ?thesis by simp
  next
    case (Cons q rest)
    obtain u rs where settle: "handleSubmit_settle outcome now stamp (ui_state s) = (u, rs)"
      by (cases "handleSubmit_settle outcome now stamp (ui_state s)")
    then have "\<not> isLoading u" and "rs = []"
      using handleSubmit_settle_result by blast+
    moreover from inv Cons have "rest = []" by (simp add: loading_inv_def)
    ultimately show ?thesis
      using QuerySettled Cons settle by (simp add: loading_inv_def)
  qed
next
  case (Selected d)
  assume "loading_inv s"
  with Selected show ?thesis by (simp add: loading_inv_def handleDocumentSelect_def)
next
  case (Dropped acceptedFiles)
  assume "loading_inv s"
  with Dropped show ?thesis
    by (cases acceptedFiles) (simp_all add: loading_inv_def onDrop_send_def)
next
  case (UploadSettled outcome)
  assume "loading_inv s"
  with UploadSettled show ?thesis
    by (cases "uploads_in_flight s"; cases outcome)
       (auto simp: loading_inv_def onDrop_settle_def handleDocumentUploaded_result)
qed

lemma selection_inv_step: "selection_inv s \<Longrightarrow> selection_inv (step e s)"
proof (cases e)
  case (Typed q)
  assume "selection_inv s"
  with Typed show ?thesis
    by (cases "selectedDocument (ui_state s)") (simp_all add: selection_inv_def)
next
  case (Submit now stamp)
  assume "selection_inv s"
  with Submit show ?thesis
    by (cases "selectedDocument (ui_state s)")
       (auto simp: selection_inv_def handleSubmit_send_def handleNewMessage_def)
next
  case (QuerySettled outcome now stamp)
  assume "selection_inv s"
  with QuerySettled show ?thesis
    by (cases "queries_in_flight s"; cases outcome)
       (auto simp: selection_inv_def handleSubmit_settle_def handleNewMessage_def)
next
  case (Selected d)
  assume inv: "selection_inv s"
  show ?thesis
  proof (cases "d \<in> set (documents (ui_state s))")
    case False
    with Selected inv show ?thesis by simp
  next
    case True
    then have "documents (ui_state s) \<noteq> []" by auto
    with inv have "selectedDocument (ui_state s) \<noteq> None" by (simp add: selection_inv_def)
    with Selected True inv show ?thesis
      by (cases "uploads_in_flight s")
         (auto simp: selection_inv_def handleDocumentSelect_def)
  qed
next
  case (Dropped acceptedFiles)
  assume "selection_inv s"
  with Dropped show ?thesis
    by (cases acceptedFiles) (auto simp: selection_inv_def onDrop_send_def)
next
  case (UploadSettled outcome)
  assume inv: "selection_inv s"
  show ?thesis
  proof (cases "uploads_in_flight s")
    case Nil
    with UploadSettled inv show ?thesis by simp
  next
    case (Cons pending rest)
    obtain r seen where pending: "pending = (r, seen)" by (cases pending)
    from inv Cons pending have rest: "rest = []"
      and seen: "(seen = None) = (selectedDocument (ui_state s) = None)"
      and docs: "selectedDocument (ui_state s) = None \<longrightarrow> documents (ui_state s) = []"
      by (simp_all add: selection_inv_def)
    show ?thesis
    proof (cases outcome)
      case (UploadFailed e)
      with UploadSettled Cons pending rest docs show ?thesis
        by (simp add: selection_inv_def onDrop_settle_def)
    next
      case (Uploaded d)
      with UploadSettled Cons pending rest seen docs show ?thesis
        by (cases seen)
           (simp_all add: selection_inv_def onDrop_settle_def handleDocumentUploaded_result)
    qed
  qed
qed

lemma selection_inv_run: "selection_inv (run evs)"
proof (induction evs rule: rev_induct)
  case Nil
  show ?case by (simp add: run_def selection_inv_def initial_session_def initial_ui_def)
next
  case (snoc e evs)
  then show ?case by (simp add: run_def selection_inv_step)
qed

lemma loading_inv_run: "loading_inv (run evs)"
proof (induction evs rule: rev_induct)
  case Nil
  show ?case by (simp add: run_def loading_inv_def initial_session_def initial_ui_def)
next
  case (snoc e evs)
  then show ?case by (simp add: run_def loading_inv_step)
qed

text \<open>
  C8. Selecting a document sets the selected document to the chosen one and empties the
  chat, and leaves the list of documents (and every other cell of the state) as it was;
  this holds from every state, so also when the chosen document is the one already
  selected.
\<close>

theorem select_resets_chat:
  "selectedDocument (handleDocumentSelect d u) = Some d \<and>
   messages (handleDocumentSelect d u) = [] \<and>
   documents (handleDocumentSelect d u) = documents u \<and>
   handleDocumentSelect d u = u\<lparr>selectedDocument := Some d, messages := []\<rparr> \<and>
   messages (handleDocumentSelect d (u\<lparr>selectedDocument := Some d\<rparr>)) = []"
  by (simp add: handleDocumentSelect_def)

text \<open>
  C9. In every session, when an upload that is in flight succeeds, the returned
  document is appended at the end of the document list; if no document was selected it
  becomes the selected one, otherwise the selection stays what it was, so the document
  newly becomes the selection if and only if none was selected before; and the chat
  messages are not touched.
\<close>

theorem upload_appends_and_selects_first:
  assumes "uploads_in_flight (run evs) \<noteq> []"
  shows "documents (ui_state (step (UploadSettled (Uploaded d)) (run evs)))
           = documents (ui_state (run evs)) @ [d] \<and>
         selectedDocument (ui_state (step (UploadSettled (Uploaded d)) (run evs)))
           = (case selectedDocument (ui_state (run evs)) of
                None \<Rightarrow> Some d
              | Some cur \<Rightarrow> Some cur) \<and>
         ((selectedDocument (ui_state (step (UploadSettled (Uploaded d)) (run evs))) = Some d \<and>
           selectedDocument (ui_state (run evs)) \<noteq> Some d)
            = (selectedDocument (ui_state (run evs)) = None)) \<and>
         messages (ui_state (step (UploadSettled (Uploaded d)) (run evs)))
           = messages (ui_state (run evs))"
proof -
  let ?s = "run evs"
  from assms obtain r seen rest where pending: "uploads_in_flight ?s = (r, seen) # rest"
    by (cases "uploads_in_flight ?s") auto
  with selection_inv_run [of evs]
  have seen: "(seen = None) = (selectedDocument (ui_state ?s) = None)"
    by (simp add: selection_inv_def)
  have after: "ui_state (step (UploadSettled (Uploaded d)) ?s)
                 = (handleDocumentUploaded seen d
                      ((ui_state ?s)\<lparr>uploadStatus :=
                         Some \<lparr>status_type = Success,
                               status_message = js_str ''Document uploaded successfully!''\<rparr>\<rparr>))
                   \<lparr>uploading := False\<rparr>"
    using pending by (simp add: onDrop_settle_def)
  show ?thesis
  proof (cases "selectedDocument (ui_state ?s)")
    case None
    with seen have "seen = None" by simp
    with None show ?thesis unfolding after by (simp add: handleDocumentUploaded_result)
  next
    case (Some cur)
    with seen obtain old where "seen = Some old" by (cases seen) auto
    with Some show ?thesis unfolding after by (simp add: handleDocumentUploaded_result)
  qed
qed

theorem upload_appends_and_selects_first_witness:
  "uploads_in_flight (run session2) \<noteq> [] \<and>
   documents (ui_state (step (UploadSettled (Uploaded doc2)) (run session2))) = [doc1, doc2] \<and>
   selectedDocument (ui_state (step (UploadSettled (Uploaded doc2)) (run session2))) = Some doc1 \<and>
   messages (ui_state (step (UploadSettled (Uploaded doc2)) (run session2)))
     = messages (ui_state (run session2))"
proof -
  have h: "uploads_in_flight (run session2) \<noteq> []"
    by (simp add: session2_def run_def initial_session_def initial_ui_def file1_def file2_def
        onDrop_send_def onDrop_settle_def handleDocumentUploaded_def Let_def)
  have v: "documents (ui_state (run session2)) = [doc1] \<and>
           selectedDocument (ui_state (run session2)) = Some doc1"
    by (simp add: session2_def run_def initial_session_def initial_ui_def file1_def file2_def
        onDrop_send_def onDrop_settle_def handleDocumentUploaded_def Let_def)
  from upload_appends_and_selects_first [OF h, of doc2]
  have docs: "documents (ui_state (step (UploadSettled (Uploaded doc2)) (run session2)))
                = documents (ui_state (run session2)) @ [doc2]"
    and sel: "selectedDocument (ui_state (step (UploadSettled (Uploaded doc2)) (run session2)))
                = (case selectedDocument (ui_state (run session2)) of
                     None \<Rightarrow> Some doc2
                   | Some cur \<Rightarrow> Some cur)"
    and msgs: "messages (ui_state (step (UploadSettled (Uploaded doc2)) (run session2)))
                 = messages (ui_state (run session2))"
    by blast+
  from v have "documents (ui_state (run session2)) @ [doc2] = [doc1, doc2]"
    and "(case selectedDocument (ui_state (run session2)) of
            None \<Rightarrow> Some doc2
          | Some cur \<Rightarrow> Some cur) = Some doc1"
    by simp_all
  with h docs sel msgs show ?thesis by (simp only: simp_thms)
qed

text \<open>
  C10. In every session, whatever events came before: if a submit event issues a query
  request, then the question, trimmed, was not empty, the loading flag was off, and no
  query was in flight.
\<close>

theorem submit_sends_only_when_idle_and_nonblank:
  assumes "queries_in_flight (step (Submit now stamp) (run evs)) \<noteq> queries_in_flight (run evs)"
  shows "js_trim (question (ui_state (run evs))) \<noteq> [] \<and>
         \<not> isLoading (ui_state (run evs)) \<and>
         queries_in_flight (run evs) = []"
proof -
  let ?s = "run evs"
  from assms obtain doc where sel: "selectedDocument (ui_state ?s) = Some doc"
    by (cases "selectedDocument (ui_state ?s)") auto
  obtain u r where send: "handleSubmit_send doc now stamp (ui_state ?s) = (u, r)"
    by (cases "handleSubmit_send doc now stamp (ui_state ?s)")
  with assms sel obtain q where "r = Some q" by (cases r) auto
  with send have "js_trim (question (ui_state ?s)) \<noteq> []" and idle: "\<not> isLoading (ui_state ?s)"
    using handleSubmit_send_guard by blast+
  moreover from idle loading_inv_run [of evs] have "queries_in_flight ?s = []"
    by (simp add: loading_inv_def)
  ultimately show ?thesis by simp
qed

theorem submit_sends_only_when_idle_and_nonblank_witness:
  "queries_in_flight (step (Submit 5 6) (run session1)) \<noteq> queries_in_flight (run session1) \<and>
   js_trim (question (ui_state (run session1))) \<noteq> [] \<and>
   \<not> isLoading (ui_state (run session1)) \<and>
   queries_in_flight (run session1) = []"
proof -
  have h: "queries_in_flight (step (Submit 5 6) (run session1)) \<noteq> queries_in_flight (run session1)"
    by (simp add: session1_def run_def initial_session_def initial_ui_def file1_def doc1_def
        onDrop_send_def onDrop_settle_def handleDocumentUploaded_def handleSubmit_send_def
        handleNewMessage_def js_trim_def js_str_def is_js_whitespace_def Let_def)
  from submit_sends_only_when_idle_and_nonblank [OF h] h show ?thesis by simp
qed

text \<open>
  C6. A query whose request fails. Whatever the state in which the handler resumes, the
  \<open>catch\<close> and \<open>finally\<close> blocks append one message, from the assistant, flagged as an
  error and reading "Sorry, I encountered an error while processing your question.
  Please try again.", switch the loading flag off, change nothing else and issue no
  request. So a whole run of \<open>handleSubmit\<close> on a non-blank question with nothing
  loading issues exactly the one request and leaves the earlier messages, followed by
  the user's message and the error message; and in every session, when the query in
  flight fails, the documents, the selection, the earlier messages and the uploads in
  flight are as before, and no query is in flight afterwards.
\<close>

theorem failed_query_is_terminal:
  "handleSubmit_settle QueryFailed now2 stamp2 u =
     (u\<lparr>messages :=
          messages u @
          [\<lparr>msg_id = now2 + 1, msg_type = Assistant,
            content = js_str
              ''Sorry, I encountered an error while processing your question. Please try again.'',
            sources = None, error = True, timestamp = stamp2\<rparr>],
        isLoading := False\<rparr>, []) \<and>
   (js_trim (question u) \<noteq> [] \<and> \<not> isLoading u \<longrightarrow>
      handleSubmit doc QueryFailed now stamp now2 stamp2 u =
        (u\<lparr>messages :=
             messages u @
             [\<lparr>msg_id = now, msg_type = User, content = question u, sources = None,
               error = False, timestamp = stamp\<rparr>,
              \<lparr>msg_id = now2 + 1, msg_type = Assistant,
               content = js_str
                 ''Sorry, I encountered an error while processing your question. Please try again.'',
               sources = None, error = True, timestamp = stamp2\<rparr>],
           question := [], isLoading := False\<rparr>,
         [\<lparr>document_id = doc_id doc, request_question = question u\<rparr>])) \<and>
   (queries_in_flight (run evs) \<noteq> [] \<longrightarrow>
      step (QuerySettled QueryFailed now2 stamp2) (run evs) =
        (run evs)
          \<lparr>ui_state :=
             (ui_state (run evs))
               \<lparr>messages :=
                  messages (ui_state (run evs)) @
                  [\<lparr>msg_id = now2 + 1, msg_type = Assistant,
                    content = js_str
                      ''Sorry, I encountered an error while processing your question. Please try again.'',
                    sources = None, error = True, timestamp = stamp2\<rparr>],
                isLoading := False\<rparr>,
           queries_in_flight := []\<rparr>)"
proof (intro conjI impI)
  show settle: "handleSubmit_settle QueryFailed now2 stamp2 u =
     (u\<lparr>messages :=
          messages u @
          [\<lparr>msg_id = now2 + 1, msg_type = Assistant,
            content = js_str
              ''Sorry, I encountered an error while processing your question. Please try again.'',
            sources = None, error = True, timestamp = stamp2\<rparr>],
        isLoading := False\<rparr>, [])" for u :: "'a ui"
    by (simp add: handleSubmit_settle_def handleNewMessage_def errorMessage_def)
next
  assume "js_trim (question u) \<noteq> [] \<and> \<not> isLoading u"
  then show "handleSubmit doc QueryFailed now stamp now2 stamp2 u =
        (u\<lparr>messages :=
             messages u @
             [\<lparr>msg_id = now, msg_type = User, content = question u, sources = None,
               error = False, timestamp = stamp\<rparr>,
              \<lparr>msg_id = now2 + 1, msg_type = Assistant,
               content = js_str
                 ''Sorry, I encountered an error while processing your question. Please try again.'',
               sources = None, error = True, timestamp = stamp2\<rparr>],
           question := [], isLoading := False\<rparr>,
         [\<lparr>document_id = doc_id doc, request_question = question u\<rparr>])"
    by (simp add: handleSubmit_def handleSubmit_send_def handleSubmit_settle_def
        handleNewMessage_def errorMessage_def userMessage_def)
next
  assume flying: "queries_in_flight (run evs) \<noteq> []"
  then obtain r rest where pending: "queries_in_flight (run evs) = r # rest"
    by (cases "queries_in_flight (run evs)") auto
  with loading_inv_run [of evs] have "rest = []" by (simp add: loading_inv_def)
  with pending show "step (QuerySettled QueryFailed now2 stamp2) (run evs) =
        (run evs)
          \<lparr>ui_state :=
             (ui_state (run evs))
               \<lparr>messages :=
                  messages (ui_state (run evs)) @
                  [\<lparr>msg_id = now2 + 1, msg_type = Assistant,
                    content = js_str
                      ''Sorry, I encountered an error while processing your question. Please try again.'',
                    sources = None, error = True, timestamp = stamp2\<rparr>],
                isLoading := False\<rparr>,
           queries_in_flight := []\<rparr>"
    by (simp add: handleSubmit_settle_def handleNewMessage_def errorMessage_def)
qed

theorem failed_query_is_terminal_witness:
  "js_trim (question ui1) \<noteq> [] \<and> \<not> isLoading ui1 \<and>
   handleSubmit doc1 QueryFailed 10 11 20 21 ui1 =
     (ui1\<lparr>messages :=
           messages ui1 @
           [\<lparr>msg_id = 10, msg_type = User, content = question ui1, sources = None,
             error = False, timestamp = 11\<rparr>,
            \<lparr>msg_id = 20 + 1, msg_type = Assistant,
             content = js_str
               ''Sorry, I encountered an error while processing your question. Please try again.'',
             sources = None, error = True, timestamp = 21\<rparr>],
          question := [], isLoading := False\<rparr>,
      [\<lparr>document_id = doc_id doc1, request_question = question ui1\<rparr>]) \<and>
   queries_in_flight (run session3) \<noteq> [] \<and>
   documents (ui_state (step (QuerySettled QueryFailed 20 21) (run session3)))
     = documents (ui_state (run session3)) \<and>
   selectedDocument (ui_state (step (QuerySettled QueryFailed 20 21) (run session3)))
     = selectedDocument (ui_state (run session3)) \<and>
   length (messages (ui_state (step (QuerySettled QueryFailed 20 21) (run session3))))
     = Suc (length (messages (ui_state (run session3)))) \<and>
   queries_in_flight (step (QuerySettled QueryFailed 20 21) (run session3)) = []"
proof -
  have a: "js_trim (question ui1) \<noteq> [] \<and> \<not> isLoading ui1"
    by (simp add: ui1_def js_trim_def js_str_def is_js_whitespace_def)
  have b: "queries_in_flight (run session3) \<noteq> []"
    by (simp add: session3_def session1_def run_def initial_session_def initial_ui_def
        file1_def doc1_def onDrop_send_def onDrop_settle_def handleDocumentUploaded_def
        handleSubmit_send_def handleNewMessage_def js_trim_def js_str_def
        is_js_whitespace_def Let_def)
  note t = failed_query_is_terminal [of 20 21 ui1 doc1 10 11 session3]
  from t a have run: "handleSubmit doc1 QueryFailed 10 11 20 21 ui1 =
     (ui1\<lparr>messages :=
           messages ui1 @
           [\<lparr>msg_id = 10, msg_type = User, content = question ui1, sources = None,
             error = False, timestamp = 11\<rparr>,
            \<lparr>msg_id = 20 + 1, msg_type = Assistant,
             content = js_str
               ''Sorry, I encountered an error while processing your question. Please try again.'',
             sources = None, error = True, timestamp = 21\<rparr>],
          question := [], isLoading := False\<rparr>,
      [\<lparr>document_id = doc_id doc1, request_question = question ui1\<rparr>])"
    by blast
  from t b have after: "step (QuerySettled QueryFailed 20 21) (run session3) =
        (run session3)
          \<lparr>ui_state :=
             (ui_state (run session3))
               \<lparr>messages :=
                  messages (ui_state (run session3)) @
                  [\<lparr>msg_id = 20 + 1, msg_type = Assistant,
                    content = js_str
                      ''Sorry, I encountered an error while processing your question. Please try again.'',
                    sources = None, error = True, timestamp = 21\<rparr>],
                isLoading := False\<rparr>,
           queries_in_flight := []\<rparr>"
    by blast
  have "documents (ui_state (step (QuerySettled QueryFailed 20 21) (run session3)))
          = documents (ui_state (run session3))"
    and "selectedDocument (ui_state (step (QuerySettled QueryFailed 20 21) (run session3)))
          = selectedDocument (ui_state (run session3))"
    and "length (messages (ui_state (step (QuerySettled QueryFailed 20 21) (run session3))))
          = Suc (length (messages (ui_state (run session3))))"
    and "queries_in_flight (step (QuerySettled QueryFailed 20 21) (run session3)) = []"
    unfolding after by simp_all
  with a b run show ?thesis by (simp only: simp_thms)
qed

lemma accepts_accept:
  "accepts accept f =
     (map ascii_lower (file_type f) = js_str ''application/pdf'' \<or>
      map ascii_lower (file_type f) = js_str ''text/markdown'' \<or>
      map ascii_lower (file_type f) = js_str ''text/html'' \<or>
      map ascii_lower (file_type f) = js_str ''text/plain'' \<or>
      js_ends_with (map ascii_lower (file_name f)) (js_str ''.pdf'') \<or>
      js_ends_with (map ascii_lower (file_name f)) (js_str ''.md'') \<or>
      js_ends_with (map ascii_lower (file_name f)) (js_str ''.html'') \<or>
      js_ends_with (map ascii_lower (file_name f)) (js_str ''.txt''))"
  by (simp add: accepts_def accept_def)

lemma dropzone_accepted_subset:
  "set (dropzone_accepted opts dropped) \<subseteq> {f \<in> set dropped. accepts (opt_accept opts) f}"
  by (auto simp: dropzone_accepted_def Let_def)

text \<open>
  C5, as the code has it. The dropzone is given exactly four content types, each with
  one extension: application/pdf (.pdf), text/markdown (.md), text/html (.html) and
  text/plain (.txt). A drop issues an upload request only for a file among the dropped
  ones whose content type is one of the four or whose name ends, in lower case, in one
  of the four extensions; for a file that matches neither, none is issued. A single
  file that matches, dropped while no upload is running, is uploaded.
\<close>

theorem upload_request_only_for_accepted:
  "map fst accept =
     [js_str ''application/pdf'', js_str ''text/markdown'', js_str ''text/html'',
      js_str ''text/plain''] \<and>
   map snd accept = [[js_str ''.pdf''], [js_str ''.md''], [js_str ''.html''], [js_str ''.txt'']] \<and>
   (snd (drop_files dropped u) = Some r \<longrightarrow>
      form_file r \<in> set dropped \<and>
      (map ascii_lower (file_type (form_file r)) = js_str ''application/pdf'' \<or>
       map ascii_lower (file_type (form_file r)) = js_str ''text/markdown'' \<or>
       map ascii_lower (file_type (form_file r)) = js_str ''text/html'' \<or>
       map ascii_lower (file_type (form_file r)) = js_str ''text/plain'' \<or>
       js_ends_with (map ascii_lower (file_name (form_file r))) (js_str ''.pdf'') \<or>
       js_ends_with (map ascii_lower (file_name (form_file r))) (js_str ''.md'') \<or>
       js_ends_with (map ascii_lower (file_name (form_file r))) (js_str ''.html'') \<or>
       js_ends_with (map ascii_lower (file_name (form_file r))) (js_str ''.txt''))) \<and>
   (\<not> uploading u \<and>
    (map ascii_lower (file_type f) = js_str ''application/pdf'' \<or>
     map ascii_lower (file_type f) = js_str ''text/markdown'' \<or>
     map ascii_lower (file_type f) = js_str ''text/html'' \<or>
     map ascii_lower (file_type f) = js_str ''text/plain'' \<or>
     js_ends_with (map ascii_lower (file_name f)) (js_str ''.pdf'') \<or>
     js_ends_with (map ascii_lower (file_name f)) (js_str ''.md'') \<or>
     js_ends_with (map ascii_lower (file_name f)) (js_str ''.html'') \<or>
     js_ends_with (map ascii_lower (file_name f)) (js_str ''.txt'')) \<longrightarrow>
      snd (drop_files [f] u) = Some \<lparr>form_file = f\<rparr>)"
proof (intro conjI impI)
  show "map fst accept =
     [js_str ''application/pdf'', js_str ''text/markdown'', js_str ''text/html'',
      js_str ''text/plain'']"
    by (simp add: accept_def)
  show "map snd accept = [[js_str ''.pdf''], [js_str ''.md''], [js_str ''.html''], [js_str ''.txt'']]"
    by (simp add: accept_def)
next
  assume sent: "snd (drop_files dropped u) = Some r"
  then have "form_file r \<in> set (dropzone_accepted (useDropzone_options u) dropped)"
    by (cases "dropzone_accepted (useDropzone_options u) dropped")
       (auto simp: drop_files_def onDrop_send_def split: if_splits)
  with dropzone_accepted_subset [of "useDropzone_options u" dropped]
  have "form_file r \<in> set dropped" and ok: "accepts accept (form_file r)"
    by (auto simp: useDropzone_options_def)
  then show "form_file r \<in> set dropped" by simp
  from ok show "map ascii_lower (file_type (form_file r)) = js_str ''application/pdf'' \<or>
       map ascii_lower (file_type (form_file r)) = js_str ''text/markdown'' \<or>
       map ascii_lower (file_type (form_file r)) = js_str ''text/html'' \<or>
       map ascii_lower (file_type (form_file r)) = js_str ''text/plain'' \<or>
       js_ends_with (map ascii_lower (file_name (form_file r))) (js_str ''.pdf'') \<or>
       js_ends_with (map ascii_lower (file_name (form_file r))) (js_str ''.md'') \<or>
       js_ends_with (map ascii_lower (file_name (form_file r))) (js_str ''.html'') \<or>
       js_ends_with (map ascii_lower (file_name (form_file r))) (js_str ''.txt'')"
    by (simp only: accepts_accept)
next
  assume "\<not> uploading u \<and>
    (map ascii_lower (file_type f) = js_str ''application/pdf'' \<or>
     map ascii_lower (file_type f) = js_str ''text/markdown'' \<or>
     map ascii_lower (file_type f) = js_str ''text/html'' \<or>
     map ascii_lower (file_type f) = js_str ''text/plain'' \<or>
     js_ends_with (map ascii_lower (file_name f)) (js_str ''.pdf'') \<or>
     js_ends_with (map ascii_lower (file_name f)) (js_str ''.md'') \<or>
     js_ends_with (map ascii_lower (file_name f)) (js_str ''.html'') \<or>
     js_ends_with (map ascii_lower (file_name f)) (js_str ''.txt''))"
  then have idle: "\<not> uploading u" and ok: "accepts accept f"
    by (simp_all only: accepts_accept simp_thms)
  then show "snd (drop_files [f] u) = Some \<lparr>form_file = f\<rparr>"
    by (simp add: drop_files_def useDropzone_options_def dropzone_accepted_def onDrop_send_def)
qed

theorem upload_request_only_for_accepted_witness:
  "snd (drop_files [file3, file2] (initial_ui :: unit ui)) = Some \<lparr>form_file = file2\<rparr> \<and>
   file2 \<in> set [file3, file2] \<and>
   js_ends_with (map ascii_lower (file_name file2)) (js_str ''.md'') \<and>
   \<not> uploading (initial_ui :: unit ui) \<and>
   map ascii_lower (file_type file1) = js_str ''text/plain'' \<and>
   snd (drop_files [file1] (initial_ui :: unit ui)) = Some \<lparr>form_file = file1\<rparr> \<and>
   snd (drop_files [file3] (initial_ui :: unit ui)) = None"
proof -
  have sent: "snd (drop_files [file3, file2] (initial_ui :: unit ui)) = Some \<lparr>form_file = file2\<rparr>"
    by (simp add: drop_files_def useDropzone_options_def dropzone_accepted_def onDrop_send_def
        initial_ui_def accepts_def accept_def file2_def file3_def js_str_def
        js_ends_with_def ascii_lower_def)
  have md: "js_ends_with (map ascii_lower (file_name file2)) (js_str ''.md'')"
    by (simp add: file2_def js_str_def js_ends_with_def ascii_lower_def)
  have idle: "\<not> uploading (initial_ui :: unit ui)" by (simp add: initial_ui_def)
  have plain: "map ascii_lower (file_type file1) = js_str ''text/plain''"
    by (simp add: file1_def js_str_def ascii_lower_def)
  have none: "snd (drop_files [file3] (initial_ui :: unit ui)) = None"
    by (simp add: drop_files_def useDropzone_options_def dropzone_accepted_def onDrop_send_def
        initial_ui_def accepts_def accept_def file3_def js_str_def
        js_ends_with_def ascii_lower_def)
  from upload_request_only_for_accepted
         [of "[file3, file2]" "initial_ui :: unit ui" "\<lparr>form_file = file2\<rparr>" file1] sent
  have "form_file \<lparr>form_file = file2\<rparr> \<in> set [file3, file2]" by blast
  then have mem: "file2 \<in> set [file3, file2]" by simp
  from upload_request_only_for_accepted
         [of "[file3, file2]" "initial_ui :: unit ui" "\<lparr>form_file = file2\<rparr>" file1] idle plain
  have "snd (drop_files [file1] (initial_ui :: unit ui)) = Some \<lparr>form_file = file1\<rparr>" by blast
  with sent mem md idle plain none show ?thesis by (simp only: simp_thms)
qed

text \<open>
  C5 as stated fails: \<open>notes.md\<close> with the content type application/octet-stream, which
  is none of the four, is accepted for its extension, and dropping it issues the upload
  request for it.
\<close>

theorem upload_other_content_type_counterexample:
  "snd (drop_files [file2] (initial_ui :: unit ui)) = Some \<lparr>form_file = file2\<rparr> \<and>
   file_type file2 \<notin> set (map fst accept)"
  by (simp add: drop_files_def useDropzone_options_def dropzone_accepted_def onDrop_send_def
      initial_ui_def accepts_def accept_def file2_def js_str_def js_ends_with_def
      ascii_lower_def)

section \<open>Properties of the retrieval core\<close>

subsection \<open>Chunker\<close>

declare chunk_from.simps [simp del]

lemma chunk_from_nth:
  "j < length (chunk_from source csize stride i start) \<Longrightarrow>
     chunk_from source csize stride i start ! j = window source csize (i + j) (start + j * stride)"
proof (induction source csize stride i start arbitrary: j rule: chunk_from.induct)
  case (1 source csize stride i start)
  show ?case
  proof (cases "stride = 0 \<or> length source \<le> start")
    case True
    with "1.prems" show ?thesis by (simp add: chunk_from.simps [of source csize stride i start])
  next
    case False
    note live = this
    show ?thesis
    proof (cases j)
      case 0
      with live show ?thesis by (simp add: chunk_from.simps [of source csize stride i start])
    next
      case (Suc k)
      with live "1.prems" have more: "\<not> length source \<le> start + csize"
        and k: "k < length (chunk_from source csize stride (Suc i) (start + stride))"
        by (auto simp: chunk_from.simps [of source csize stride i start] split: if_splits)
      from "1.IH" [OF live more k] live more Suc show ?thesis
        by (simp add: chunk_from.simps [of source csize stride i start] ac_simps)
    qed
  qed
qed

lemma chunk_from_full:
  "Suc j < length (chunk_from source csize stride i start) \<Longrightarrow>
     start + j * stride + csize < length source"
proof (induction source csize stride i start arbitrary: j rule: chunk_from.induct)
  case (1 source csize stride i start)
  from "1.prems" have live: "\<not> (stride = 0 \<or> length source \<le> start)"
    by (auto simp: chunk_from.simps [of source csize stride i start] split: if_splits)
  from "1.prems" live have more: "\<not> length source \<le> start + csize"
    by (auto simp: chunk_from.simps [of source csize stride i start] split: if_splits)
  show ?case
  proof (cases j)
    case 0
    with more show ?thesis by simp
  next
    case (Suc k)
    with "1.prems" live more have "Suc k < length (chunk_from source csize stride (Suc i) (start + stride))"
      by (simp add: chunk_from.simps [of source csize stride i start])
    from "1.IH" [OF live more this] Suc show ?thesis by (simp add: ac_simps)
  qed
qed

lemma chunk_from_inside:
  "j < length (chunk_from source csize stride i start) \<Longrightarrow> start + j * stride < length source"
proof (induction source csize stride i start arbitrary: j rule: chunk_from.induct)
  case (1 source csize stride i start)
  from "1.prems" have live: "\<not> (stride = 0 \<or> length source \<le> start)"
    by (auto simp: chunk_from.simps [of source csize stride i start] split: if_splits)
  show ?case
  proof (cases j)
    case 0
    with live show ?thesis by simp
  next
    case (Suc k)
    with "1.prems" live have more: "\<not> length source \<le> start + csize"
      and k: "k < length (chunk_from source csize stride (Suc i) (start + stride))"
      by (auto simp: chunk_from.simps [of source csize stride i start] split: if_splits)
    from "1.IH" [OF live more k] Suc show ?thesis by (simp add: ac_simps)
  qed
qed

lemma chunk_from_last:
  "stride \<le> csize \<Longrightarrow> chunk_from source csize stride i start \<noteq> [] \<Longrightarrow>
     char_end (last (chunk_from source csize stride i start)) = length source"
proof (induction source csize stride i start rule: chunk_from.induct)
  case (1 source csize stride i start)
  from "1.prems" have live: "\<not> (stride = 0 \<or> length source \<le> start)"
    by (auto simp: chunk_from.simps [of source csize stride i start] split: if_splits)
  show ?case
  proof (cases "length source \<le> start + csize")
    case True
    with live show ?thesis
      by (simp add: chunk_from.simps [of source csize stride i start] window_def)
  next
    case False
    with "1.prems"(1) live have "\<not> (stride = 0 \<or> length source \<le> start + stride)" by simp
    then have nonempty: "chunk_from source csize stride (Suc i) (start + stride) \<noteq> []"
      by (simp add: chunk_from.simps [of source csize stride "Suc i" "start + stride"])
    from "1.IH" [OF live False "1.prems"(1) nonempty] live False nonempty show ?thesis
      by (simp add: chunk_from.simps [of source csize stride i start])
  qed
qed

lemma chunk_from_covers:
  "0 < stride \<Longrightarrow> stride \<le> csize \<Longrightarrow> start \<le> p \<Longrightarrow> p < length source \<Longrightarrow>
     \<exists>c \<in> set (chunk_from source csize stride i start). char_start c \<le> p \<and> p < char_end c"
proof (induction source csize stride i start rule: chunk_from.induct)
  case (1 source csize stride i start)
  from "1.prems" have live: "\<not> (stride = 0 \<or> length source \<le> start)" by simp
  show ?case
  proof (cases "p < start + csize")
    case True
    with "1.prems" live show ?thesis
      by (simp add: chunk_from.simps [of source csize stride i start] window_def)
  next
    case False
    with "1.prems" have more: "\<not> length source \<le> start + csize" and "start + stride \<le> p"
      by simp_all
    from "1.IH" [OF live more "1.prems"(1,2) this(2) "1.prems"(4)] live more show ?thesis
      by (auto simp: chunk_from.simps [of source csize stride i start])
  qed
qed

lemma chunk_shared:
  assumes "start + csize < length source" and "overlap < csize"
  shows "drop (csize - overlap) (chunk_text (window source csize i start))
           = take overlap (chunk_text (window source csize j (start + (csize - overlap))))"
proof -
  from assms have a: "min (start + csize) (length source) - start = csize"
    by simp
  from assms have b: "overlap \<le> min (start + (csize - overlap) + csize) (length source)
                               - (start + (csize - overlap))"
    by simp
  have "drop (csize - overlap) (take csize (drop start source))
          = take overlap (drop (start + (csize - overlap)) source)"
    using assms(2) by (simp add: drop_take ac_simps)
  moreover have "take overlap (take (min (start + (csize - overlap) + csize) (length source)
                     - (start + (csize - overlap))) (drop (start + (csize - overlap)) source))
                 = take overlap (drop (start + (csize - overlap)) source)"
    using b by (simp only: take_take min_absorb1)
  ultimately show ?thesis
    by (simp only: window_def Let_def chunk.simps a)
qed

text \<open>
  C3. For \<open>0 < overlap < size\<close> the chunker returns a sequence of windows such that:
  window \<open>i\<close> has index \<open>i\<close>, starts at \<open>i * (size - overlap)\<close>, ends \<open>size\<close> later or at
  the end of the text, is not empty and holds exactly that range of the text; each
  window but the last has length \<open>size\<close>, the next one starts \<open>size - overlap\<close> later, and
  the two share exactly \<open>overlap\<close> positions, with the same content; every position of
  the text lies in some window; on a text that is not empty the first window starts at
  0 and the last one, shorter than \<open>size\<close> or not, ends at the end of the text; the empty
  text gives no window.
\<close>

theorem chunk_windows:
  assumes "0 < overlap" and "overlap < csize"
  shows "\<exists>cs. chunk source csize overlap = Some cs \<and>
           (\<forall>i<length cs.
              seq_index (cs ! i) = i \<and>
              char_start (cs ! i) = i * (csize - overlap) \<and>
              char_end (cs ! i) = min (char_start (cs ! i) + csize) (length source) \<and>
              char_start (cs ! i) < char_end (cs ! i) \<and>
              chunk_text (cs ! i)
                = take (char_end (cs ! i) - char_start (cs ! i)) (drop (char_start (cs ! i)) source)) \<and>
           (\<forall>i. Suc i < length cs \<longrightarrow>
              char_start (cs ! Suc i) = char_start (cs ! i) + (csize - overlap) \<and>
              char_end (cs ! i) - char_start (cs ! Suc i) = overlap \<and>
              length (chunk_text (cs ! i)) = csize \<and>
              drop (csize - overlap) (chunk_text (cs ! i)) = take overlap (chunk_text (cs ! Suc i))) \<and>
           (\<forall>p<length source. \<exists>i<length cs. char_start (cs ! i) \<le> p \<and> p < char_end (cs ! i)) \<and>
           (source \<noteq> [] \<longrightarrow> cs \<noteq> [] \<and> char_start (cs ! 0) = 0 \<and> char_end (last cs) = length source) \<and>
           (source = [] \<longrightarrow> cs = [])"
proof -
  define stride where "stride = csize - overlap"
  define cs where "cs = chunk_from source csize stride 0 0"
  from assms have stride: "0 < stride" "stride \<le> csize" "stride + overlap = csize"
    by (simp_all add: stride_def)
  have run: "chunk source csize overlap = Some cs"
    using assms by (simp add: chunk_def cs_def stride_def)
  have nth: "cs ! i = window source csize i (i * stride)" if "i < length cs" for i
    using chunk_from_nth [of i source csize stride 0 0] that by (simp add: cs_def)
  have inside: "i * stride < length source" if "i < length cs" for i
    using chunk_from_inside [of i source csize stride 0 0] that by (simp add: cs_def)
  have full: "i * stride + csize < length source" if "Suc i < length cs" for i
    using chunk_from_full [of i source csize stride 0 0] that by (simp add: cs_def)
  have each: "seq_index (cs ! i) = i \<and>
              char_start (cs ! i) = i * stride \<and>
              char_end (cs ! i) = min (char_start (cs ! i) + csize) (length source) \<and>
              char_start (cs ! i) < char_end (cs ! i) \<and>
              chunk_text (cs ! i)
                = take (char_end (cs ! i) - char_start (cs ! i)) (drop (char_start (cs ! i)) source)"
    if "i < length cs" for i
    using nth [OF that] inside [OF that] assms by (simp add: window_def Let_def)
  have pair: "char_start (cs ! Suc i) = char_start (cs ! i) + stride \<and>
              char_end (cs ! i) - char_start (cs ! Suc i) = overlap \<and>
              length (chunk_text (cs ! i)) = csize \<and>
              drop (csize - overlap) (chunk_text (cs ! i)) = take overlap (chunk_text (cs ! Suc i))"
    if "Suc i < length cs" for i
  proof -
    from that have i: "i < length cs" by simp
    have "drop (csize - overlap) (chunk_text (cs ! i)) = take overlap (chunk_text (cs ! Suc i))"
      using chunk_shared [OF _ assms(2), of "i * stride" source i "Suc i"] full [OF that]
      by (simp add: nth [OF i] nth [OF that] stride_def add.commute)
    moreover have "char_start (cs ! Suc i) = char_start (cs ! i) + stride"
      by (simp add: nth [OF i] nth [OF that] window_def Let_def)
    moreover have "char_end (cs ! i) - char_start (cs ! Suc i) = overlap"
      using full [OF that] stride(3) by (simp add: nth [OF i] nth [OF that] window_def Let_def)
    moreover have "length (chunk_text (cs ! i)) = csize"
      using full [OF that] by (simp add: nth [OF i] window_def Let_def)
    ultimately show ?thesis by simp
  qed
  have cover: "\<exists>i<length cs. char_start (cs ! i) \<le> p \<and> p < char_end (cs ! i)"
    if "p < length source" for p
  proof -
    from chunk_from_covers [OF stride(1,2) _ that, of 0 0]
    obtain c where "c \<in> set cs" and c: "char_start c \<le> p \<and> p < char_end c"
      by (auto simp: cs_def)
    then obtain i where "i < length cs" and "cs ! i = c" by (auto simp: in_set_conv_nth)
    with c show ?thesis by blast
  qed
  have nonempty: "cs \<noteq> [] \<and> char_start (cs ! 0) = 0 \<and> char_end (last cs) = length source"
    if "source \<noteq> []"
  proof -
    from that stride(1) have ne: "cs \<noteq> []"
      by (simp add: cs_def chunk_from.simps [of source csize stride 0 0])
    then have "0 < length cs" by simp
    from nth [OF this] have "char_start (cs ! 0) = 0" by (simp add: window_def Let_def)
    moreover from chunk_from_last [OF stride(2), of source 0 0] ne
    have "char_end (last cs) = length source" by (simp add: cs_def)
    ultimately show ?thesis using ne by simp
  qed
  have empty: "cs = []" if "source = []"
    using that by (simp add: cs_def chunk_from.simps [of "[]" csize stride 0 0])
  from run each pair cover nonempty empty show ?thesis
    unfolding stride_def by blast
qed

theorem chunk_windows_witness:
  "(0::nat) < 1 \<and> (1::nat) < 4 \<and>
   chunk ''abcdefghij'' 4 1 =
     Some [\<lparr>seq_index = 0, chunk_text = ''abcd'', char_start = 0, char_end = 4\<rparr>,
           \<lparr>seq_index = 1, chunk_text = ''defg'', char_start = 3, char_end = 7\<rparr>,
           \<lparr>seq_index = 2, chunk_text = ''ghij'', char_start = 6, char_end = 10\<rparr>] \<and>
   (\<exists>cs. chunk ''abcdefghij'' 4 1 = Some cs \<and> length cs = 3 \<and>
      char_end (cs ! 0) - char_start (cs ! Suc 0) = 1 \<and>
      char_end (cs ! 1) - char_start (cs ! Suc 1) = 1 \<and>
      char_end (last cs) = length ''abcdefghij'')"
proof -
  have a: "(0::nat) < 1" and b: "(1::nat) < 4" by simp_all
  have v: "chunk ''abcdefghij'' 4 1 =
     Some [\<lparr>seq_index = 0, chunk_text = ''abcd'', char_start = 0, char_end = 4\<rparr>,
           \<lparr>seq_index = 1, chunk_text = ''defg'', char_start = 3, char_end = 7\<rparr>,
           \<lparr>seq_index = 2, chunk_text = ''ghij'', char_start = 6, char_end = 10\<rparr>]"
    by (simp add: chunk_def chunk_from.simps window_def)
  from chunk_windows [OF a b, of "''abcdefghij''"] obtain cs where
    cs: "chunk ''abcdefghij'' 4 1 = Some cs"
    and pair: "\<forall>i. Suc i < length cs \<longrightarrow> char_end (cs ! i) - char_start (cs ! Suc i) = 1"
    and last: "''abcdefghij'' \<noteq> [] \<longrightarrow> char_end (last cs) = length ''abcdefghij''"
    by blast
  from cs v have len: "length cs = 3" by auto
  with pair have "char_end (cs ! 0) - char_start (cs ! Suc 0) = 1"
    and "char_end (cs ! 1) - char_start (cs ! Suc 1) = 1"
    by simp_all
  with a b v cs len last show ?thesis by auto
qed

subsection \<open>Retriever\<close>

lemma length_insert_by_score: "length (insert_by_score r xs) = Suc (length xs)"
  by (induction xs) simp_all

lemma set_insert_by_score: "set (insert_by_score r xs) = insert r (set xs)"
  by (induction xs) auto

lemma sorted_insert_by_score:
  "sorted_wrt by_score_desc xs \<Longrightarrow> sorted_wrt by_score_desc (insert_by_score r xs)"
  by (induction xs) (auto simp: set_insert_by_score by_score_desc_def)

lemma length_rank: "length (rank rs) = length rs"
  by (induction rs) (simp_all add: rank_def length_insert_by_score)

lemma sorted_rank: "sorted_wrt by_score_desc (rank rs)"
  by (induction rs) (simp_all add: rank_def sorted_insert_by_score)

text \<open>
  C2. For every query vector, every \<open>k\<close> and every index, \<open>search\<close> returns at most
  \<open>min k n\<close> results, \<open>n\<close> the number of vectors in the index, in an order in which no
  score is greater than an earlier one; on the empty index it returns the empty result.
\<close>

theorem search_bounded_and_sorted:
  "length (search similarity text_of index q k) \<le> min k (length index) \<and>
   sorted_wrt by_score_desc (search similarity text_of index q k) \<and>
   search similarity text_of [] q k = []"
proof -
  have "sorted_wrt by_score_desc (search similarity text_of index q k)"
    unfolding search_def by (rule sorted_wrt_take) (rule sorted_rank)
  moreover have "length (search similarity text_of index q k) \<le> min k (length index)"
    by (simp add: search_def length_rank)
  moreover have "search similarity text_of [] q k = []"
    by (simp add: search_def)
  ultimately show ?thesis by simp
qed

subsection \<open>Answer synthesizer\<close>

text \<open>
  C4. On an empty retrieval result \<open>synthesize\<close> returns an answer, not an error, whose
  confidence is 0 and whose sources are empty, whatever the question; so does a query
  against an index with no chunk, whose search result is empty.
\<close>

theorem synthesize_empty_results:
  "(case synthesize assemble asked [] of
      Inl e \<Rightarrow> False
    | Inr a \<Rightarrow> confidence a = 0 \<and> answer_sources a = []) \<and>
   (case synthesize assemble asked (search similarity text_of [] q k) of
      Inl e \<Rightarrow> False
    | Inr a \<Rightarrow> confidence a = 0 \<and> answer_sources a = [])"
  by (simp add: synthesize_def search_def rank_def)

end
